theory Spec2Isabelle
  imports Complex_Main
begin

section \<open>The GUI components of \<^verbatim>\<open>seedsigner/gui/components.py\<close>\<close>

text \<open>
  The module lays text out on a small screen. This theory embeds the font cache
  (\<^verbatim>\<open>Fonts.get_font\<close>), the centering calculator (\<^verbatim>\<open>calc_text_centering\<close>) and the
  layout done by \<^verbatim>\<open>TextArea.__post_init__\<close> together with the draw loop of
  \<^verbatim>\<open>TextArea.render\<close>.

  Pixel quantities are Python \<^verbatim>\<open>int\<close>s and are modelled by \<^typ>\<open>int\<close>. Python's true
  division \<^verbatim>\<open>a / b\<close> of two ints is modelled by division of reals; it is exact on
  the pixel ranges a screen can have. List positions (word counts) are \<^typ>\<open>nat\<close>:
  the search starts at \<^verbatim>\<open>(0, len(words))\<close> and only subtracts one from an index that
  is at least one.
\<close>

subsection \<open>Constants of the module\<close>

definition EDGE_PADDING :: int where
  "EDGE_PADDING = 8"

definition COMPONENT_PADDING :: int where
  "COMPONENT_PADDING = 8"

definition BODY_FONT_NAME :: string where
  "BODY_FONT_NAME = ''OpenSans-Regular''"

definition BODY_FONT_SIZE :: int where
  "BODY_FONT_SIZE = 17"

definition BODY_LINE_SPACING :: real where
  "BODY_LINE_SPACING = 0.25"

subsection \<open>Python primitives used by the module\<close>

text \<open>\<^verbatim>\<open>int(x)\<close> on a float drops the fractional part (it rounds toward zero).\<close>

definition py_int :: "real \<Rightarrow> int" where
  "py_int x = (if 0 \<le> x then \<lfloor>x\<rfloor> else \<lceil>x\<rceil>)"

text \<open>
  \<^verbatim>\<open>s.split(" ")\<close> cuts at every single space; two spaces in a row give an empty
  word and the empty string gives one empty word.
\<close>

fun split_space :: "string \<Rightarrow> string list" where
  "split_space [] = [[]]"
| "split_space (c # cs) =
     (if c = CHR '' '' then [] # split_space cs
      else (case split_space cs of
              [] \<Rightarrow> [[c]]
            | w # ws \<Rightarrow> (c # w) # ws))"

text \<open>\<^verbatim>\<open>" ".join(ws)\<close>\<close>

fun join_space :: "string list \<Rightarrow> string" where
  "join_space [] = []"
| "join_space [w] = w"
| "join_space (w # v # ws) = w @ CHR '' '' # join_space (v # ws)"

datatype error =
    FontLoadError
  | TextOverflow
  | ZeroDivisionError

subsection \<open>Fonts\<close>

text \<open>
  A font object as \<^verbatim>\<open>ImageFont.truetype\<close> returns it: the file it was read from, its
  pixel size, and the metric queries the module calls. \<^verbatim>\<open>getsize\<close> gives
  (width, height), \<^verbatim>\<open>getoffset\<close> the bearing, \<^verbatim>\<open>getbbox\<close> the box
  (left, top, right, bottom) for the anchor \<^verbatim>\<open>lt\<close>, \<^verbatim>\<open>getmetrics\<close> (ascent, descent).
\<close>

record metrics =
  getsize :: "string \<Rightarrow> int \<times> int"
  getoffset :: "string \<Rightarrow> int \<times> int"
  getbbox :: "string \<Rightarrow> int \<times> int \<times> int \<times> int"
  getmetrics :: "int \<times> int"

record font = metrics +
  path :: string
  px :: int

text \<open>
  The font files of the resource directory: the metrics of the file at each pixel size,
  \<open>None\<close> when the file is missing or cannot be parsed.
\<close>

type_synonym resources = "string \<Rightarrow> int \<Rightarrow> metrics option"

text \<open>\<^verbatim>\<open>ImageFont.truetype(file, size)\<close>; \<open>None\<close> stands for the exception it raises.\<close>

definition ImageFont_truetype :: "resources \<Rightarrow> string \<Rightarrow> int \<Rightarrow> font option" where
  "ImageFont_truetype res file size' =
     (case res file size' of
        None \<Rightarrow> None
      | Some m \<Rightarrow>
          Some \<lparr>getsize = getsize m, getoffset = getoffset m, getbbox = getbbox m,
                getmetrics = getmetrics m, path = file, px = size'\<rparr>)"

text \<open>
  The class attribute \<^verbatim>\<open>Fonts.fonts\<close>, a dict of dicts, with a log of the calls made
  to \<^verbatim>\<open>ImageFont.truetype\<close> (the log is not in the source; it records the loads).
\<close>

record Fonts =
  fonts :: "string \<rightharpoonup> (int \<rightharpoonup> font)"
  truetype_calls :: "(string \<times> int) list"

definition Fonts_initial :: Fonts where
  "Fonts_initial = \<lparr>fonts = Map.empty, truetype_calls = []\<rparr>"

definition get_font :: "resources \<Rightarrow> Fonts \<Rightarrow> string \<Rightarrow> int \<Rightarrow> (error + font) \<times> Fonts" where
  "get_font res cls font_name size' =
     (let cls = (if font_name \<notin> dom (fonts cls)
                 then cls\<lparr>fonts := (fonts cls)(font_name \<mapsto> Map.empty)\<rparr>
                 else cls);
          by_size = (case fonts cls font_name of None \<Rightarrow> Map.empty | Some d \<Rightarrow> d)
      in case by_size size' of
           Some f \<Rightarrow> (Inr f, cls)
         | None \<Rightarrow>
             (let file = font_name @ ''.ttf'';
                  cls = cls\<lparr>truetype_calls := truetype_calls cls @ [(file, size')]\<rparr>
              in case ImageFont_truetype res file size' of
                   None \<Rightarrow> (Inl FontLoadError, cls)
                 | Some f \<Rightarrow>
                     (Inr f, cls\<lparr>fonts := (fonts cls)(font_name \<mapsto> by_size(size' \<mapsto> f))\<rparr>)))"

subsection \<open>Centering one line of text in a box\<close>

definition calc_text_centering ::
    "font \<Rightarrow> string \<Rightarrow> bool \<Rightarrow> int \<Rightarrow> int \<Rightarrow> int \<Rightarrow> int \<Rightarrow> int \<times> int" where
  "calc_text_centering fnt txt is_centered box_width box_height start_x start_y =
     (let (offset_x, offset_y) = getoffset fnt txt;
          (box_left, box_top, box_right, box_bottom) = getbbox fnt txt;
          (ascent, descent) = getmetrics fnt;
          text_x = (if is_centered
                    then py_int (real_of_int (box_width - (box_right - offset_x)) / 2) - offset_x
                    else COMPONENT_PADDING);
          text_y = py_int (real_of_int (box_height - (ascent - offset_y)) / 2) - offset_y
      in (start_x + text_x, start_y + text_y))"

subsection \<open>The text area\<close>

text \<open>The fields of the dataclass \<^verbatim>\<open>TextArea\<close>, as the caller gives them.\<close>

record TextArea_fields =
  text_str :: string
  width :: int
  height :: int
  screen_x :: int
  screen_y :: int
  background_color :: string
  font_name :: string
  font_size :: int
  font_color :: string
  is_text_centered :: bool
  supersampling_factor :: int

text \<open>The defaults of the dataclass: only the text and the width are required.\<close>

definition TextArea_defaults :: "string \<Rightarrow> int \<Rightarrow> TextArea_fields" where
  "TextArea_defaults t w =
     \<lparr>text_str = t, width = w, height = 0, screen_x = 0, screen_y = 0,
      background_color = ''black'', font_name = BODY_FONT_NAME, font_size = BODY_FONT_SIZE,
      font_color = ''#fcfcfc'', is_text_centered = True, supersampling_factor = 2\<rparr>"

text \<open>An entry of \<^verbatim>\<open>self.text_lines\<close>: the dict with the keys \<^verbatim>\<open>text\<close> and \<^verbatim>\<open>text_x\<close>.\<close>

record text_line =
  line_text :: string
  text_x :: int

text \<open>The object once \<^verbatim>\<open>__post_init__\<close> has added its attributes.\<close>

record TextArea = TextArea_fields +
  font :: font
  supersampled_width :: int
  supersampled_height :: int
  line_spacing :: int
  text_height :: int
  text_lines :: "text_line list"
  text_width :: int
  text_y :: int

text \<open>
  The width left for text: \<^verbatim>\<open>self.supersampled_width - (2 * EDGE_PADDING *
  self.supersampling_factor)\<close>, the right-hand side of both width tests.
\<close>

definition available_width :: "TextArea \<Rightarrow> int" where
  "available_width self =
     supersampled_width self - (2 * EDGE_PADDING * supersampling_factor self)"

text \<open>The local function \<^verbatim>\<open>_add_text_line\<close>; it updates \<^verbatim>\<open>self\<close>.\<close>

definition add_text_line :: "TextArea \<Rightarrow> string \<Rightarrow> int \<Rightarrow> TextArea" where
  "add_text_line self txt w =
     (let tx = (if is_text_centered self
                then py_int (real_of_int (supersampled_width self - w) / 2)
                else supersampling_factor self * EDGE_PADDING);
          self = self\<lparr>text_lines := text_lines self @ [\<lparr>line_text = txt, text_x = tx\<rparr>]\<rparr>
      in if w > text_width self then self\<lparr>text_width := w\<rparr> else self)"

text \<open>
  The local recursive function \<^verbatim>\<open>_binary_len_search\<close>, which reads \<^verbatim>\<open>self\<close> and
  \<^verbatim>\<open>words\<close> from the enclosing scope. \<open>None\<close> is the recursion that never returns
  (CPython ends it with a \<^verbatim>\<open>RecursionError\<close>).
\<close>

partial_function (option) binary_len_search ::
    "TextArea \<Rightarrow> string list \<Rightarrow> nat \<Rightarrow> nat \<Rightarrow> (nat \<times> int) option" where
  "binary_len_search self words min_index max_index =
     (let index = nat \<lceil>real (max_index + min_index) / 2\<rceil>;
          index = (if index = 0 then 1 else index);
          tw = fst (getsize (font self) (join_space (take index words)))
      in if tw > available_width self then
           binary_len_search self words min_index
             (if min_index + 1 = index then index - 1 else index)
         else if index = max_index then Some (index, tw)
         else binary_len_search self words index max_index)"

text \<open>The loop \<^verbatim>\<open>while words:\<close> of the multi-line branch.\<close>

partial_function (option) wrap_words :: "TextArea \<Rightarrow> string list \<Rightarrow> TextArea option" where
  "wrap_words self words =
     (if words = [] then Some self
      else case binary_len_search self words 0 (length words) of
             None \<Rightarrow> None
           | Some (index, tw) \<Rightarrow>
               wrap_words (add_text_line self (join_space (take index words)) tw)
                 (drop index words))"

declare binary_len_search.simps [code]

declare wrap_words.simps [code]

text \<open>
  The last three assignments of \<^verbatim>\<open>__post_init__\<close>, which divide by the supersampling
  factor.
\<close>

definition restore_scaling :: "TextArea \<Rightarrow> error + TextArea" where
  "restore_scaling self =
     (if supersampling_factor self = 0 then Inl ZeroDivisionError
      else Inr (self\<lparr>
        width := py_int (real_of_int (supersampled_width self)
                          / real_of_int (supersampling_factor self)),
        height := py_int (real_of_int (supersampled_height self)
                           / real_of_int (supersampling_factor self)),
        text_width := py_int (real_of_int (text_width self)
                               / real_of_int (supersampling_factor self))\<rparr>))"

text \<open>
  \<^verbatim>\<open>total_text_height\<close> of the multi-line branch, from the lines stored in \<^verbatim>\<open>self\<close>.
\<close>

definition total_text_height :: "TextArea \<Rightarrow> int" where
  "total_text_height self =
     text_height self * int (length (text_lines self))
       + line_spacing self * (int (length (text_lines self)) - 1)"

text \<open>
  The attributes \<^verbatim>\<open>__post_init__\<close> sets before it looks at the width of the text:
  the font, the supersampled size, the line spacing, the text height that
  \<^verbatim>\<open>font.getsize(self.text)\<close> reports, and the empty list of lines. \<^verbatim>\<open>text_y\<close> has no
  value before its branch assigns it; the model starts it at 0.
\<close>

definition init_attributes :: "TextArea_fields \<Rightarrow> font \<Rightarrow> TextArea" where
  "init_attributes a fnt =
     \<lparr>text_str = text_str a, width = width a, height = height a,
      screen_x = screen_x a, screen_y = screen_y a,
      background_color = background_color a, font_name = font_name a,
      font_size = font_size a, font_color = font_color a,
      is_text_centered = is_text_centered a,
      supersampling_factor = supersampling_factor a,
      font = fnt,
      supersampled_width = supersampling_factor a * width a,
      supersampled_height = supersampling_factor a * height a,
      line_spacing = py_int (BODY_LINE_SPACING * real_of_int (font_size a)),
      text_height = snd (getsize fnt (text_str a)),
      text_lines = [], text_width = 0, text_y = 0\<rparr>"

text \<open>
  \<^verbatim>\<open>TextArea.__post_init__\<close>. The result is \<open>None\<close> when the line search never
  returns; otherwise the exception raised or the finished object, with the font cache as
  the call leaves it.
\<close>

definition TextArea_post_init ::
    "resources \<Rightarrow> Fonts \<Rightarrow> TextArea_fields \<Rightarrow> ((error + TextArea) \<times> Fonts) option" where
  "TextArea_post_init res cls a =
     (case get_font res cls (font_name a) (supersampling_factor a * font_size a) of
        (Inl e, cls') \<Rightarrow> Some (Inl e, cls')
      | (Inr fnt, cls') \<Rightarrow>
          (let self = init_attributes a fnt;
               tw = fst (getsize (font self) (text_str self))
           in if tw < available_width self then
                (let self = add_text_line self (text_str self) tw;
                     self = (if height self = 0
                             then self\<lparr>text_y := 0, supersampled_height := text_height self\<rparr>
                             else self\<lparr>text_y :=
                               py_int (real_of_int (supersampling_factor self
                                          * supersampled_height self - text_height self) / 2)\<rparr>)
                 in Some (restore_scaling self, cls'))
              else
                (case wrap_words self (split_space (text_str self)) of
                   None \<Rightarrow> None
                 | Some self \<Rightarrow>
                     if height self > 0
                        \<and> total_text_height self
                            > supersampled_height self
                              + 2 * COMPONENT_PADDING * supersampling_factor self
                     then Some (Inl TextOverflow, cls')
                     else
                       (let total = total_text_height self;
                            self = self\<lparr>supersampled_height := total\<rparr>;
                            self = self\<lparr>text_y :=
                              py_int (real_of_int (supersampled_height self - total) / 2)\<rparr>
                        in Some (restore_scaling self, cls')))))"

text \<open>
  The loop of \<^verbatim>\<open>TextArea.render\<close>: the calls \<^verbatim>\<open>draw.text((x, y), text, ...)\<close> it makes,
  in order, as (x, y, text). \<^verbatim>\<open>cur_y\<close> starts at \<^verbatim>\<open>text_y\<close>, plus \<^verbatim>\<open>screen_y\<close> when the
  lines are drawn straight onto the screen.
\<close>

fun draw_lines :: "TextArea \<Rightarrow> int \<Rightarrow> text_line list \<Rightarrow> (int \<times> int \<times> string) list" where
  "draw_lines self cur_y [] = []"
| "draw_lines self cur_y (line # rest) =
     (text_x line, cur_y, line_text line)
       # draw_lines self (cur_y + text_height self + line_spacing self) rest"

definition render_text_calls :: "TextArea \<Rightarrow> (int \<times> int \<times> string) list" where
  "render_text_calls self =
     (let cur_y = (if supersampling_factor self > 1 then text_y self
                   else text_y self + screen_y self)
      in draw_lines self cur_y (text_lines self))"

subsection \<open>Notions used to state the properties\<close>

text \<open>Halving an integer the way \<^verbatim>\<open>int(d / 2)\<close> does: the quotient nearer to zero.\<close>

definition half_toward_zero :: "int \<Rightarrow> int" where
  "half_toward_zero d = (if 0 \<le> d then d div 2 else - ((- d) div 2))"

text \<open>
  The centering formula as the specification words it, with \<open>floor\<close> in both
  coordinates; it is compared with \<^verbatim>\<open>calc_text_centering\<close> below.
\<close>

definition calc_text_centering_spec ::
    "font \<Rightarrow> string \<Rightarrow> bool \<Rightarrow> int \<Rightarrow> int \<Rightarrow> int \<Rightarrow> int \<Rightarrow> int \<times> int" where
  "calc_text_centering_spec fnt txt is_centered box_width box_height origin_x origin_y =
     (let (offset_x, offset_y) = getoffset fnt txt;
          (left, top, right, bottom) = getbbox fnt txt;
          (ascent, descent) = getmetrics fnt
      in (if is_centered
          then origin_x + \<lfloor>real_of_int (box_width - (right - offset_x)) / 2\<rfloor> - offset_x
          else origin_x + COMPONENT_PADDING,
          origin_y + \<lfloor>real_of_int (box_height - (ascent - offset_y)) / 2\<rfloor> - offset_y))"

text \<open>The measured width of the first \<open>k\<close> words joined by single spaces.\<close>

definition prefix_width :: "TextArea \<Rightarrow> string list \<Rightarrow> nat \<Rightarrow> int" where
  "prefix_width self words k = fst (getsize (font self) (join_space (take k words)))"

subsection \<open>A fixed-pitch font for the examples\<close>

text \<open>
  Every character advances by half the pixel size and a line is as tall as the pixel
  size; the bearing is zero. Both font files of the module are present at every positive
  size.
\<close>

definition fixed_pitch :: "int \<Rightarrow> metrics" where
  "fixed_pitch sz =
     \<lparr>getsize = (\<lambda>s. (int (length s) * (sz div 2), sz)),
      getoffset = (\<lambda>s. (0, 0)),
      getbbox = (\<lambda>s. (0, 0, int (length s) * (sz div 2), sz)),
      getmetrics = (sz, sz div 4)\<rparr>"

definition demo_resources :: resources where
  "demo_resources file sz =
     (if (file = ''OpenSans-Regular.ttf'' \<or> file = ''OpenSans-SemiBold.ttf'') \<and> 0 < sz
      then Some (fixed_pitch sz) else None)"

definition demo_font :: "string \<Rightarrow> int \<Rightarrow> font" where
  "demo_font file sz =
     \<lparr>getsize = getsize (fixed_pitch sz), getoffset = getoffset (fixed_pitch sz),
      getbbox = getbbox (fixed_pitch sz), getmetrics = getmetrics (fixed_pitch sz),
      path = file, px = sz\<rparr>"

fun line_breaks :: "(string \<Rightarrow> int) \<Rightarrow> int \<Rightarrow> string list \<Rightarrow> string list \<Rightarrow> bool" where
  "line_breaks m av ws [] = (ws = [])"
| "line_breaks m av ws (l # ls) =
     (\<exists>k\<in>{1..length ws}. l = join_space (take k ws) \<and> m l \<le> av
        \<and> (k = length ws \<or> av < m (join_space (take (Suc k) ws)))
        \<and> line_breaks m av (drop k ws) ls)"

fun greedy_lines :: "(string \<Rightarrow> int) \<Rightarrow> int \<Rightarrow> string list \<Rightarrow> string list \<Rightarrow> bool" where
  "greedy_lines m av ws [] = (ws = [])"
| "greedy_lines m av ws (l # ls) =
     (\<exists>k\<in>{1..length ws}. l = join_space (take k ws) \<and> m l \<le> av
        \<and> (\<forall>j\<in>{k<..length ws}. av < m (join_space (take j ws)))
        \<and> greedy_lines m av (drop k ws) ls)"

definition width_monotone :: "(string \<Rightarrow> int) \<Rightarrow> bool" where
  "width_monotone m = (\<forall>ws w. ws \<noteq> [] \<longrightarrow> m (join_space ws) \<le> m (join_space (ws @ [w])))"

definition text_width_of :: "font \<Rightarrow> string \<Rightarrow> int" where
  "text_width_of fnt s = fst (getsize fnt s)"

definition constructed :: "((error + TextArea) \<times> Fonts) option \<Rightarrow> TextArea option" where
  "constructed r = (case r of Some (Inr ta, cls) \<Rightarrow> Some ta | _ \<Rightarrow> None)"

definition single_line :: "TextArea_fields \<Rightarrow> font \<Rightarrow> TextArea" where
  "single_line a fnt =
     (let self = init_attributes a fnt;
          self = add_text_line self (text_str self) (fst (getsize (font self) (text_str self)))
      in if height self = 0
         then self\<lparr>text_y := 0, supersampled_height := text_height self\<rparr>
         else self\<lparr>text_y :=
                py_int (real_of_int (supersampling_factor self
                          * supersampled_height self - text_height self) / 2)\<rparr>)"

(*DEFS*)
section \<open>Auxiliary facts\<close>

subsection \<open>Rounding\<close>

lemma py_int_half_nonneg: "0 \<le> d \<Longrightarrow> py_int (real_of_int d / 2) = d div 2"
  by (simp add: py_int_def floor_divide_of_int_eq[of d 2, simplified])

lemma py_int_half_neg: "d < 0 \<Longrightarrow> py_int (real_of_int d / 2) = - ((- d) div 2)"
proof -
  assume "d < 0"
  then have "py_int (real_of_int d / 2) = \<lceil>real_of_int d / 2\<rceil>"
    by (simp add: py_int_def)
  also have "\<dots> = - \<lfloor>real_of_int (- d) / 2\<rfloor>"
    by (simp add: ceiling_def)
  also have "\<dots> = - ((- d) div 2)"
    using floor_divide_of_int_eq[of "- d" 2] by simp
  finally show ?thesis .
qed

lemma py_int_half: "py_int (real_of_int d / 2) = half_toward_zero d"
  using py_int_half_nonneg[of d] py_int_half_neg[of d]
  by (cases "0 \<le> d") (simp_all add: half_toward_zero_def)

lemma floor_half: "\<lfloor>real_of_int d / 2\<rfloor> = d div 2"
  using floor_divide_of_int_eq[where ?'a = real, of d 2] by simp

lemma ceil_half: "nat \<lceil>real n / 2\<rceil> = (n + 1) div 2"
proof -
  have "\<lceil>real n / 2\<rceil> = - \<lfloor>real_of_int (- int n) / 2\<rfloor>"
    by (simp add: ceiling_def)
  also have "\<dots> = - ((- int n) div 2)"
    using floor_divide_of_int_eq[of "- int n" 2] by simp
  also have "\<dots> = (int n + 1) div 2" by linarith
  finally show ?thesis by (simp add: nat_div_distrib nat_add_distrib)
qed

subsection \<open>Splitting and joining\<close>

lemma split_space_nonempty: "split_space s \<noteq> []"
  by (induction s) (auto split: list.splits)

lemma join_split_space: "join_space (split_space s) = s"
proof (induction s)
  case Nil show ?case by simp
next
  case (Cons c cs)
  obtain w ws where ws: "split_space cs = w # ws"
    using split_space_nonempty[of cs] by (cases "split_space cs") auto
  show ?case
  proof (cases "c = CHR '' ''")
    case True
    with Cons ws show ?thesis by simp
  next
    case False
    with Cons ws show ?thesis by (cases ws) auto
  qed
qed

lemma split_space_no_space: "w \<in> set (split_space s) \<Longrightarrow> CHR '' '' \<notin> set w"
  by (induction s arbitrary: w) (auto split: if_splits list.splits)

lemma split_space_word: "CHR '' '' \<notin> set w \<Longrightarrow> split_space w = [w]"
  by (induction w) auto

lemma split_space_append:
  "CHR '' '' \<notin> set w \<Longrightarrow> split_space (w @ CHR '' '' # s) = w # split_space s"
  by (induction w) auto

lemma split_join_space:
  "ws \<noteq> [] \<Longrightarrow> \<forall>w\<in>set ws. CHR '' '' \<notin> set w \<Longrightarrow> split_space (join_space ws) = ws"
proof (induction ws rule: join_space.induct)
  case 1 then show ?case by simp
next
  case (2 w) then show ?case by (simp add: split_space_word)
next
  case (3 w v ws)
  then show ?case by (simp add: split_space_append)
qed

lemma join_space_append:
  "xs \<noteq> [] \<Longrightarrow> ys \<noteq> [] \<Longrightarrow>
   join_space (xs @ ys) = join_space xs @ CHR '' '' # join_space ys"
proof (induction xs rule: join_space.induct)
  case 1 then show ?case by simp
next
  case (2 w) then show ?case by (cases ys) auto
next
  case (3 w v ws) then show ?case by simp
qed

lemma midpoint_eq: "nat \<lceil>real (mx + mn) / 2\<rceil> = (mx + mn + 1) div 2"
  by (rule ceil_half)

text \<open>One unfolding of the search, with the midpoint written in natural numbers.\<close>

lemma binary_len_search_unfold:
  "binary_len_search self words mn mx =
     (let index = (if (mx + mn + 1) div 2 = 0 then 1 else (mx + mn + 1) div 2)
      in if prefix_width self words index > available_width self then
           binary_len_search self words mn (if mn + 1 = index then index - 1 else index)
         else if index = mx then Some (index, prefix_width self words index)
         else binary_len_search self words index mx)"
  by (subst binary_len_search.simps) (simp only: Let_def ceil_half prefix_width_def)

lemmas binary_len_search_induct =
  binary_len_search.raw_induct[rotated, consumes 1, case_names step]

lemma search_0_0_diverges:
  assumes "available_width self < prefix_width self words 1"
  shows "binary_len_search self words 0 0 = None"
proof -
  have never: "\<not> (s = self \<and> w = words \<and> mn = 0 \<and> mx = 0)"
    if "binary_len_search s w mn mx = Some y" for s w mn mx y
    using that
  proof (induction s w mn mx y rule: binary_len_search_induct)
    case (step bls s w mn mx y)
    show ?case
    proof
      assume eq: "s = self \<and> w = words \<and> mn = 0 \<and> mx = 0"
      with step(2) assms have "bls self words 0 0 = Some y"
        by (simp add: Let_def prefix_width_def)
      from step(1)[OF this] show False by simp
    qed
  qed
  show ?thesis
  proof (cases "binary_len_search self words 0 0")
    case None
    then show ?thesis .
  next
    case (Some r)
    from never[OF Some] show ?thesis by simp
  qed
qed

lemma search_correct:
  fixes self :: TextArea and words :: "string list" and n :: nat
  defines "fits \<equiv> (\<lambda>k. prefix_width self words k \<le> available_width self)"
  assumes "mn \<le> mx" "1 \<le> mx" "mx \<le> n"
    and "1 \<le> mn \<longrightarrow> fits mn"
    and "mx = n \<or> \<not> fits mx \<or> \<not> fits (mx + 1)"
  shows "(fits 1 \<or> 1 \<le> mn \<longrightarrow> (\<exists>r. binary_len_search self words mn mx = Some r))
       \<and> (\<forall>i tw. binary_len_search self words mn mx = Some (i, tw) \<longrightarrow>
            1 \<le> i \<and> mn \<le> i \<and> i \<le> mx \<and> tw = prefix_width self words i \<and> fits i
            \<and> (i = n \<or> \<not> fits (i + 1)))"
  using assms(2-)
proof (induction "mx - mn" arbitrary: mn mx rule: less_induct)
  case less
  define index where "index = (mx + mn + 1) div 2"
  have idx: "mn \<le> index" "index \<le> mx" "1 \<le> index" "mn < mx \<Longrightarrow> mn < index"
    using less.prems(1,2) by (auto simp: index_def)
  have unf: "binary_len_search self words mn mx =
      (if prefix_width self words index > available_width self then
           binary_len_search self words mn (if mn + 1 = index then index - 1 else index)
         else if index = mx then Some (index, prefix_width self words index)
         else binary_len_search self words index mx)"
    using idx(3) by (subst binary_len_search_unfold) (simp add: Let_def index_def)
  show ?case
  proof (cases "fits index")
    case False
    then have wide: "available_width self < prefix_width self words index"
      by (simp add: fits_def)
    have ne: "index \<noteq> mn"
      using False less.prems(4) idx(3) by auto
    then have lt: "mn < index" using idx(1) by simp
    show ?thesis
    proof (cases "mn + 1 = index")
      case True
      then have i: "index = Suc mn" by simp
      have call: "binary_len_search self words mn mx = binary_len_search self words mn mn"
        using unf wide unfolding i by simp
      show ?thesis
      proof (cases "mn = 0")
        case True
        with \<open>mn + 1 = index\<close> have "index = 1" by simp
        with wide have "binary_len_search self words 0 0 = None"
          by (simp add: search_0_0_diverges)
        with call True \<open>index = 1\<close> False show ?thesis by simp
      next
        case False
        have "mn - mn < mx - mn" using lt idx(2) by simp
        moreover have "mn \<le> mn" "1 \<le> mn" "mn \<le> n" "1 \<le> mn \<longrightarrow> fits mn"
          using False less.prems by auto
        moreover have "mn = n \<or> \<not> fits mn \<or> \<not> fits (mn + 1)"
          using True \<open>\<not> fits index\<close> by simp
        ultimately have IH: "(fits 1 \<or> 1 \<le> mn \<longrightarrow> (\<exists>r. binary_len_search self words mn mn = Some r))
       \<and> (\<forall>i tw. binary_len_search self words mn mn = Some (i, tw) \<longrightarrow>
            1 \<le> i \<and> mn \<le> i \<and> i \<le> mn \<and> tw = prefix_width self words i \<and> fits i
            \<and> (i = n \<or> \<not> fits (i + 1)))"
          by (rule less.hyps)
        with call less.prems(1) show ?thesis by auto
      qed
    next
      case False
      then have call: "binary_len_search self words mn mx = binary_len_search self words mn index"
        using unf wide by simp
      have "index < mx"
        using False lt less.prems(1) by (auto simp: index_def)
      then have "index - mn < mx - mn" using lt by simp
      moreover have "mn \<le> index" "1 \<le> index" "index \<le> n" "1 \<le> mn \<longrightarrow> fits mn"
        using idx less.prems by auto
      moreover have "index = n \<or> \<not> fits index \<or> \<not> fits (index + 1)"
        using \<open>\<not> fits index\<close> by simp
      ultimately have IH: "(fits 1 \<or> 1 \<le> mn \<longrightarrow> (\<exists>r. binary_len_search self words mn index = Some r))
       \<and> (\<forall>i tw. binary_len_search self words mn index = Some (i, tw) \<longrightarrow>
            1 \<le> i \<and> mn \<le> i \<and> i \<le> index \<and> tw = prefix_width self words i \<and> fits i
            \<and> (i = n \<or> \<not> fits (i + 1)))"
        by (rule less.hyps)
      with call idx(2) show ?thesis by auto
    qed
  next
    case True
    then have nw: "\<not> available_width self < prefix_width self words index"
      by (simp add: fits_def)
    show ?thesis
    proof (cases "index = mx")
      case True
      then have "binary_len_search self words mn mx = Some (mx, prefix_width self words mx)"
        using unf nw by simp
      with True \<open>fits index\<close> less.prems show ?thesis by auto
    next
      case False
      then have call: "binary_len_search self words mn mx = binary_len_search self words index mx"
        using unf nw by simp
      have "mn < mx" using False idx(1,2) by linarith
      then have "mx - index < mx - mn" using idx(4) idx(2) by simp
      moreover have "index \<le> mx" "1 \<le> mx" "mx \<le> n" "1 \<le> index \<longrightarrow> fits index"
        using idx less.prems True by auto
      moreover have "mx = n \<or> \<not> fits mx \<or> \<not> fits (mx + 1)"
        using less.prems by simp
      ultimately have IH: "(fits 1 \<or> 1 \<le> index \<longrightarrow> (\<exists>r. binary_len_search self words index mx = Some r))
       \<and> (\<forall>i tw. binary_len_search self words index mx = Some (i, tw) \<longrightarrow>
            1 \<le> i \<and> index \<le> i \<and> i \<le> mx \<and> tw = prefix_width self words i \<and> fits i
            \<and> (i = n \<or> \<not> fits (i + 1)))"
        by (rule less.hyps)
      with call idx(1,3) show ?thesis by auto
    qed
  qed
qed

lemma add_text_line_eq:
  "add_text_line self t w =
     self\<lparr>text_lines := text_lines self
              @ [\<lparr>line_text = t,
                  text_x = (if is_text_centered self
                            then py_int (real_of_int (supersampled_width self - w) / 2)
                            else supersampling_factor self * EDGE_PADDING)\<rparr>],
          text_width := (if w > text_width self then w else text_width self)\<rparr>"
  by (simp add: add_text_line_def Let_def)

lemma add_text_line_widths [simp]:
  "prefix_width (add_text_line self t w) = prefix_width self"
  "available_width (add_text_line self t w) = available_width self"
  "font (add_text_line self t w) = font self"
  by (simp_all add: add_text_line_eq prefix_width_def available_width_def fun_eq_iff)

lemma add_text_line_lines [simp]:
  "map line_text (text_lines (add_text_line self t w)) = map line_text (text_lines self) @ [t]"
  by (simp add: add_text_line_eq)

lemmas wrap_words_induct = wrap_words.raw_induct[rotated, consumes 1, case_names step]

lemma search_from_start:
  assumes "words \<noteq> []"
    and "binary_len_search self words 0 (length words) = Some (i, tw)"
  shows "1 \<le> i \<and> i \<le> length words \<and> tw = prefix_width self words i
         \<and> tw \<le> available_width self
         \<and> (i = length words \<or> available_width self < prefix_width self words (Suc i))"
proof -
  have "1 \<le> length words" using assms(1) by (cases words) auto
  from search_correct[of 0 "length words" "length words" self words, OF _ this] assms(2)
  show ?thesis by auto
qed

lemma search_from_start_returns:
  assumes "words \<noteq> []" and "prefix_width self words 1 \<le> available_width self"
  shows "\<exists>r. binary_len_search self words 0 (length words) = Some r"
proof -
  have "1 \<le> length words" using assms(1) by (cases words) auto
  from search_correct[of 0 "length words" "length words" self words, OF _ this] assms(2)
  show ?thesis by auto
qed

lemma wrap_words_lines:
  assumes "wrap_words self words = Some self'"
  shows "(\<exists>ls. map line_text (text_lines self') = map line_text (text_lines self) @ ls
            \<and> line_breaks (text_width_of (font self)) (available_width self) words ls)
         \<and> self' = self\<lparr>text_lines := text_lines self', text_width := text_width self'\<rparr>"
  using assms
proof (induction self words self' rule: wrap_words_induct)
  case (step ww self words self')
  show ?case
  proof (cases "words = []")
    case True
    with step(2) have "self' = self" by simp
    with True show ?thesis by simp
  next
    case False
    with step(2) obtain i tw where
      s: "binary_len_search self words 0 (length words) = Some (i, tw)"
      and w: "ww (add_text_line self (join_space (take i words)) tw) (drop i words) = Some self'"
      by (auto split: option.splits)
    let ?self1 = "add_text_line self (join_space (take i words)) tw"
    from search_from_start[OF False s] have i: "1 \<le> i" "i \<le> length words"
      and tw: "tw = prefix_width self words i" "tw \<le> available_width self"
      and mx: "i = length words \<or> available_width self < prefix_width self words (Suc i)"
      by auto
    from step(1)[OF w] obtain ls where
      ls: "map line_text (text_lines self') = map line_text (text_lines ?self1) @ ls"
        "line_breaks (text_width_of (font ?self1)) (available_width ?self1) (drop i words) ls"
      and fr: "self' = ?self1\<lparr>text_lines := text_lines self', text_width := text_width self'\<rparr>"
      by blast
    have "line_breaks (text_width_of (font self)) (available_width self) words
            (join_space (take i words) # ls)"
      using i tw mx ls(2) by (auto simp: prefix_width_def text_width_of_def intro!: bexI[of _ i])
    moreover have "map line_text (text_lines self')
        = map line_text (text_lines self) @ join_space (take i words) # ls"
      using ls(1) by simp
    moreover have "self' = self\<lparr>text_lines := text_lines self', text_width := text_width self'\<rparr>"
      by (subst fr) (simp add: add_text_line_eq)
    ultimately show ?thesis by blast
  qed
qed

lemma line_breaks_Nil [simp]: "line_breaks m av [] ls = (ls = [])"
  by (cases ls) auto

lemma line_breaks_join: "line_breaks m av ws ls \<Longrightarrow> join_space ls = join_space ws"
proof (induction ls arbitrary: ws)
  case Nil then show ?case by simp
next
  case (Cons l ls)
  then obtain k where k: "1 \<le> k" "k \<le> length ws" "l = join_space (take k ws)"
    and rest: "line_breaks m av (drop k ws) ls" by auto
  from Cons.IH[OF rest] have IH: "join_space ls = join_space (drop k ws)" .
  show ?case
  proof (cases "drop k ws = []")
    case True
    with rest have "ls = []" by simp
    with True k show ?thesis by simp
  next
    case False
    with rest have "ls \<noteq> []" by auto
    then obtain l' ls' where "ls = l' # ls'" by (cases ls) auto
    then have "join_space (l # ls) = l @ CHR '' '' # join_space ls" by simp
    also have "\<dots> = join_space (take k ws) @ CHR '' '' # join_space (drop k ws)"
      using k IH by simp
    also have "\<dots> = join_space (take k ws @ drop k ws)"
      using k False by (subst join_space_append) auto
    finally show ?thesis by simp
  qed
qed

lemma line_breaks_words:
  "line_breaks m av ws ls \<Longrightarrow> \<forall>w\<in>set ws. CHR '' '' \<notin> set w \<Longrightarrow>
   concat (map split_space ls) = ws"
proof (induction ls arbitrary: ws)
  case Nil then show ?case by simp
next
  case (Cons l ls)
  then obtain k where k: "1 \<le> k" "k \<le> length ws" "l = join_space (take k ws)"
    and rest: "line_breaks m av (drop k ws) ls" by auto
  have "\<forall>w\<in>set (drop k ws). CHR '' '' \<notin> set w"
    using Cons.prems(2) by (meson in_set_dropD)
  from Cons.IH[OF rest this] have IH: "concat (map split_space ls) = drop k ws" .
  have "take k ws \<noteq> []" using k by (cases ws) auto
  moreover have "\<forall>w\<in>set (take k ws). CHR '' '' \<notin> set w"
    using Cons.prems(2) by (meson in_set_takeD)
  ultimately have "split_space l = take k ws"
    using k(3) by (simp add: split_join_space)
  with IH show ?case by simp
qed

lemma line_breaks_fit: "line_breaks m av ws ls \<Longrightarrow> \<forall>l\<in>set ls. m l \<le> av"
  by (induction ls arbitrary: ws) auto

lemma width_monotone_take:
  assumes "width_monotone m" "1 \<le> k" "k \<le> j"
  shows "m (join_space (take k ws)) \<le> m (join_space (take j ws))"
  using assms(3)
proof (induction j)
  case 0
  with assms(2) show ?case by simp
next
  case (Suc j)
  show ?case
  proof (cases "k = Suc j")
    case True then show ?thesis by simp
  next
    case False
    with Suc have kj: "k \<le> j" by simp
    then have IH: "m (join_space (take k ws)) \<le> m (join_space (take j ws))" by (rule Suc.IH)
    show ?thesis
    proof (cases "j < length ws")
      case True
      then have "take (Suc j) ws = take j ws @ [ws ! j]" by (rule take_Suc_conv_app_nth)
      moreover have "take j ws \<noteq> []" using True kj assms(2) by (cases ws) auto
      ultimately have "m (join_space (take j ws)) \<le> m (join_space (take (Suc j) ws))"
        using assms(1) by (simp add: width_monotone_def)
      with IH show ?thesis by linarith
    next
      case False
      then have "take (Suc j) ws = take j ws" by simp
      with IH show ?thesis by simp
    qed
  qed
qed

lemma line_breaks_greedy:
  "width_monotone m \<Longrightarrow> line_breaks m av ws ls \<Longrightarrow> greedy_lines m av ws ls"
proof (induction ls arbitrary: ws)
  case Nil then show ?case by simp
next
  case (Cons l ls)
  then obtain k where k: "1 \<le> k" "k \<le> length ws" "l = join_space (take k ws)" "m l \<le> av"
    and mx: "k = length ws \<or> av < m (join_space (take (Suc k) ws))"
    and rest: "line_breaks m av (drop k ws) ls" by auto
  have "\<forall>j\<in>{k<..length ws}. av < m (join_space (take j ws))"
  proof
    fix j assume j: "j \<in> {k<..length ws}"
    then have "k \<noteq> length ws" "Suc k \<le> j" by auto
    with mx have "av < m (join_space (take (Suc k) ws))" by simp
    also have "\<dots> \<le> m (join_space (take j ws))"
      using width_monotone_take[OF Cons.prems(1), of "Suc k" j ws] \<open>Suc k \<le> j\<close> by simp
    finally show "av < m (join_space (take j ws))" .
  qed
  with k Cons.IH[OF Cons.prems(1) rest] show ?case by auto
qed

lemma restore_scaling_Inr:
  "restore_scaling self = Inr ta \<Longrightarrow>
     supersampling_factor self \<noteq> 0
     \<and> ta = self\<lparr>
        width := py_int (real_of_int (supersampled_width self)
                          / real_of_int (supersampling_factor self)),
        height := py_int (real_of_int (supersampled_height self)
                           / real_of_int (supersampling_factor self)),
        text_width := py_int (real_of_int (text_width self)
                               / real_of_int (supersampling_factor self))\<rparr>"
  by (auto simp: restore_scaling_def split: if_splits)

lemma restore_scaling_kept:
  assumes "restore_scaling self = Inr ta"
  shows "text_lines ta = text_lines self" "font ta = font self"
    "available_width ta = available_width self" "text_str ta = text_str self"
    "supersampled_height ta = supersampled_height self" "text_y ta = text_y self"
    "line_spacing ta = line_spacing self" "text_height ta = text_height self"
    "supersampling_factor ta = supersampling_factor self" "font_size ta = font_size self"
    "height ta = py_int (real_of_int (supersampled_height self)
                           / real_of_int (supersampling_factor self))"
    "total_text_height ta = total_text_height self"
  using restore_scaling_Inr[OF assms]
  by (simp_all add: available_width_def total_text_height_def)

lemma post_init_font_error:
  assumes "get_font res cls (font_name a) (supersampling_factor a * font_size a) = (Inl e, cls')"
  shows "TextArea_post_init res cls a = Some (Inl e, cls')"
  using assms by (simp add: TextArea_post_init_def)

lemma post_init_single:
  assumes "get_font res cls (font_name a) (supersampling_factor a * font_size a) = (Inr fnt, cls')"
    and "fst (getsize fnt (text_str a)) < available_width (init_attributes a fnt)"
  shows "TextArea_post_init res cls a = Some (restore_scaling (single_line a fnt), cls')"
  using assms
  by (simp add: TextArea_post_init_def single_line_def Let_def init_attributes_def)

lemma post_init_multi:
  assumes "get_font res cls (font_name a) (supersampling_factor a * font_size a) = (Inr fnt, cls')"
    and "\<not> fst (getsize fnt (text_str a)) < available_width (init_attributes a fnt)"
  shows "TextArea_post_init res cls a =
     (case wrap_words (init_attributes a fnt) (split_space (text_str a)) of
        None \<Rightarrow> None
      | Some self \<Rightarrow>
          if height self > 0
             \<and> total_text_height self
                 > supersampled_height self + 2 * COMPONENT_PADDING * supersampling_factor self
          then Some (Inl TextOverflow, cls')
          else Some (restore_scaling
                 (self\<lparr>supersampled_height := total_text_height self,
                       text_y := py_int (real_of_int (total_text_height self
                                           - total_text_height self) / 2)\<rparr>), cls'))"
  using assms
  by (simp add: TextArea_post_init_def Let_def init_attributes_def split: option.splits)

lemma init_attributes_simps [simp]:
  "font (init_attributes a fnt) = fnt"
  "text_str (init_attributes a fnt) = text_str a"
  "height (init_attributes a fnt) = height a"
  "text_lines (init_attributes a fnt) = []"
  "supersampling_factor (init_attributes a fnt) = supersampling_factor a"
  "supersampled_width (init_attributes a fnt) = supersampling_factor a * width a"
  "supersampled_height (init_attributes a fnt) = supersampling_factor a * height a"
  "line_spacing (init_attributes a fnt) = py_int (BODY_LINE_SPACING * real_of_int (font_size a))"
  "text_height (init_attributes a fnt) = snd (getsize fnt (text_str a))"
  "font_size (init_attributes a fnt) = font_size a"
  "screen_y (init_attributes a fnt) = screen_y a"
  by (simp_all add: init_attributes_def)

lemma available_width_init:
  "available_width (init_attributes a fnt)
     = supersampling_factor a * width a - 2 * EDGE_PADDING * supersampling_factor a"
  by (simp add: available_width_def)

lemma single_line_simps:
  "font (single_line a fnt) = fnt"
  "text_str (single_line a fnt) = text_str a"
  "available_width (single_line a fnt) = available_width (init_attributes a fnt)"
  "map line_text (text_lines (single_line a fnt)) = [text_str a]"
  "supersampling_factor (single_line a fnt) = supersampling_factor a"
  "line_spacing (single_line a fnt) = py_int (BODY_LINE_SPACING * real_of_int (font_size a))"
  "text_height (single_line a fnt) = snd (getsize fnt (text_str a))"
  "font_size (single_line a fnt) = font_size a"
  "supersampled_height (single_line a fnt)
     = (if height a = 0 then snd (getsize fnt (text_str a))
        else supersampling_factor a * height a)"
  "text_y (single_line a fnt)
     = (if height a = 0 then 0
        else py_int (real_of_int (supersampling_factor a * (supersampling_factor a * height a)
                                    - snd (getsize fnt (text_str a))) / 2))"
  by (simp_all add: single_line_def Let_def add_text_line_eq available_width_def)

text \<open>What a successful construction went through.\<close>

lemma post_init_Inr_cases:
  assumes "TextArea_post_init res cls a = Some (Inr ta, cls')"
  obtains (single) fnt where
      "get_font res cls (font_name a) (supersampling_factor a * font_size a) = (Inr fnt, cls')"
      "fst (getsize fnt (text_str a)) < available_width (init_attributes a fnt)"
      "restore_scaling (single_line a fnt) = Inr ta"
  | (multi) fnt s1 where
      "get_font res cls (font_name a) (supersampling_factor a * font_size a) = (Inr fnt, cls')"
      "\<not> fst (getsize fnt (text_str a)) < available_width (init_attributes a fnt)"
      "wrap_words (init_attributes a fnt) (split_space (text_str a)) = Some s1"
      "\<not> (height s1 > 0
          \<and> total_text_height s1
              > supersampled_height s1 + 2 * COMPONENT_PADDING * supersampling_factor s1)"
      "restore_scaling (s1\<lparr>supersampled_height := total_text_height s1, text_y := 0\<rparr>) = Inr ta"
proof -
  obtain r c where g: "get_font res cls (font_name a) (supersampling_factor a * font_size a) = (r, c)"
    by (cases "get_font res cls (font_name a) (supersampling_factor a * font_size a)")
  show thesis
  proof (cases r)
    case (Inl e)
    with g assms post_init_font_error[of res cls a e c] show thesis by simp
  next
    case (Inr fnt)
    note g' = g[unfolded Inr]
    show thesis
    proof (cases "fst (getsize fnt (text_str a)) < available_width (init_attributes a fnt)")
      case True
      from post_init_single[OF g' True] assms
      have "restore_scaling (single_line a fnt) = Inr ta" "c = cls'" by simp_all
      with g' True single show thesis by simp
    next
      case False
      from post_init_multi[OF g' False] assms obtain s1 where
        w: "wrap_words (init_attributes a fnt) (split_space (text_str a)) = Some s1"
        and n: "\<not> (height s1 > 0
          \<and> total_text_height s1
              > supersampled_height s1 + 2 * COMPONENT_PADDING * supersampling_factor s1)"
        and r: "restore_scaling (s1\<lparr>supersampled_height := total_text_height s1,
                       text_y := py_int (real_of_int (total_text_height s1
                                           - total_text_height s1) / 2)\<rparr>) = Inr ta"
        and c: "c = cls'"
        by (auto split: option.splits if_splits)
      from r have "restore_scaling (s1\<lparr>supersampled_height := total_text_height s1, text_y := 0\<rparr>) = Inr ta"
        by (simp add: py_int_def)
      with g' False w n c multi show thesis by simp
    qed
  qed
qed

lemma wrap_words_kept:
  assumes "wrap_words self words = Some self'"
  shows "font self' = font self" "available_width self' = available_width self"
    "text_str self' = text_str self" "height self' = height self"
    "supersampled_height self' = supersampled_height self"
    "supersampling_factor self' = supersampling_factor self"
    "line_spacing self' = line_spacing self" "text_height self' = text_height self"
    "font_size self' = font_size self" "text_y self' = text_y self"
proof -
  from wrap_words_lines[OF assms]
  have fr: "self' = self\<lparr>text_lines := text_lines self', text_width := text_width self'\<rparr>"
    by simp
  show "font self' = font self" by (subst fr) simp
  show "available_width self' = available_width self"
    by (subst fr) (simp add: available_width_def)
  show "text_str self' = text_str self" by (subst fr) simp
  show "height self' = height self" by (subst fr) simp
  show "supersampled_height self' = supersampled_height self" by (subst fr) simp
  show "supersampling_factor self' = supersampling_factor self" by (subst fr) simp
  show "line_spacing self' = line_spacing self" by (subst fr) simp
  show "text_height self' = text_height self" by (subst fr) simp
  show "font_size self' = font_size self" by (subst fr) simp
  show "text_y self' = text_y self" by (subst fr) simp
qed

lemma constructed_line_breaks:
  assumes "TextArea_post_init res cls a = Some (Inr ta, cls')"
  shows "line_breaks (text_width_of (font ta)) (available_width ta)
           (split_space (text_str a)) (map line_text (text_lines ta))"
  using assms
proof (cases rule: post_init_Inr_cases)
  case (single fnt)
  let ?ws = "split_space (text_str a)"
  have n: "length ?ws \<in> {1..length ?ws}"
    using split_space_nonempty[of "text_str a"] by (cases ?ws) auto
  have "line_breaks (text_width_of fnt) (available_width (init_attributes a fnt)) ?ws [text_str a]"
    using single(2) n
    by (auto simp: join_split_space text_width_of_def intro!: bexI[of _ "length ?ws"])
  with restore_scaling_kept[OF single(3)] show ?thesis
    by (simp add: single_line_simps)
next
  case (multi fnt s1)
  from wrap_words_lines[OF multi(3)] have
    "line_breaks (text_width_of fnt) (available_width (init_attributes a fnt))
       (split_space (text_str a)) (map line_text (text_lines s1))"
    by simp
  with restore_scaling_kept[OF multi(5)] wrap_words_kept[OF multi(3)] show ?thesis
    by (simp add: available_width_def)
qed

lemma get_font_demo:
  "0 < sz \<Longrightarrow>
   fst (get_font demo_resources Fonts_initial ''OpenSans-Regular'' sz)
     = Inr (demo_font ''OpenSans-Regular.ttf'' sz)"
  by (simp add: get_font_def Fonts_initial_def ImageFont_truetype_def demo_resources_def
      demo_font_def Let_def)

lemma demo_font_getsize [simp]:
  "getsize (demo_font file sz) s = (int (length s) * (sz div 2), sz)"
  by (simp add: demo_font_def fixed_pitch_def)

lemma TextArea_defaults_simps [simp]:
  "text_str (TextArea_defaults t w) = t"
  "width (TextArea_defaults t w) = w"
  "height (TextArea_defaults t w) = 0"
  "font_name (TextArea_defaults t w) = ''OpenSans-Regular''"
  "font_size (TextArea_defaults t w) = 17"
  "supersampling_factor (TextArea_defaults t w) = 2"
  by (simp_all add: TextArea_defaults_def BODY_FONT_NAME_def BODY_FONT_SIZE_def)

lemma constructed_font:
  assumes "TextArea_post_init res cls a = Some (Inr ta, cls')"
  shows "get_font res cls (font_name a) (supersampling_factor a * font_size a)
           = (Inr (font ta), cls')
       \<and> available_width ta
           = supersampling_factor a * width a - 2 * EDGE_PADDING * supersampling_factor a"
  using assms
proof (cases rule: post_init_Inr_cases)
  case (single fnt)
  from single(1) restore_scaling_kept(2,3)[OF single(3)] show ?thesis
    by (simp add: single_line_simps available_width_init)
next
  case (multi fnt s1)
  from multi(1) restore_scaling_kept(2,3)[OF multi(5)] wrap_words_kept(1,2)[OF multi(3)]
  show ?thesis by (simp add: available_width_def)
qed

lemma constructed_Some:
  "constructed r = Some ta \<Longrightarrow> \<exists>cls'. r = Some (Inr ta, cls')"
  by (auto simp: constructed_def split: option.splits sum.splits prod.splits)

lemma demo_hello_lines:
  "map_option (\<lambda>ta. map line_text (text_lines ta))
     (constructed (TextArea_post_init demo_resources Fonts_initial
        (TextArea_defaults ''Hello world this is a test'' 160)))
   = Some [''Hello world this'', ''is a test'']"
  by code_simp

lemma length_join_space_snoc:
  "ws \<noteq> [] \<Longrightarrow> length (join_space (ws @ [w])) = length (join_space ws) + 1 + length w"
  by (simp add: join_space_append)

lemma width_monotone_demo:
  "0 \<le> sz \<Longrightarrow> width_monotone (text_width_of (demo_font file sz))"
proof -
  assume "0 \<le> sz"
  then have "0 \<le> sz div 2" by simp
  then show ?thesis
    by (auto simp: width_monotone_def text_width_of_def length_join_space_snoc
        intro!: mult_right_mono)
qed

lemma wrap_single_wide_word:
  assumes "available_width self < fst (getsize (font self) w)"
  shows "wrap_words self [w] = None"
proof -
  have pw: "prefix_width self [w] 1 = fst (getsize (font self) w)"
    "prefix_width self [w] (Suc 0) = fst (getsize (font self) w)"
    by (simp_all add: prefix_width_def)
  have "binary_len_search self [w] 0 1 = binary_len_search self [w] 0 0"
    using assms by (subst binary_len_search_unfold) (simp add: pw)
  also have "\<dots> = None"
    using assms by (intro search_0_0_diverges) (simp add: pw)
  finally show ?thesis
    by (subst wrap_words.simps) simp
qed

lemma wrap_words_returns:
  assumes "\<forall>w\<in>set words. fst (getsize (font self) w) \<le> available_width self"
  shows "\<exists>self'. wrap_words self words = Some self'"
  using assms
proof (induction "length words" arbitrary: self words rule: less_induct)
  case less
  show ?case
  proof (cases "words = []")
    case True
    then show ?thesis by (subst wrap_words.simps) simp
  next
    case False
    then obtain w ws where ws: "words = w # ws" by (cases words) auto
    then have "prefix_width self words 1 = fst (getsize (font self) w)"
      by (simp add: prefix_width_def)
    with less.prems ws have "prefix_width self words 1 \<le> available_width self" by simp
    from search_from_start_returns[OF False this] obtain i tw where
      s: "binary_len_search self words 0 (length words) = Some (i, tw)" by auto
    from search_from_start[OF False s] have i: "1 \<le> i" by simp
    let ?self1 = "add_text_line self (join_space (take i words)) tw"
    have "length (drop i words) < length words" using i False by simp
    moreover have "\<forall>w\<in>set (drop i words). fst (getsize (font ?self1) w) \<le> available_width ?self1"
      using less.prems by (auto dest: in_set_dropD)
    ultimately obtain self' where "wrap_words ?self1 (drop i words) = Some self'"
      using less.hyps by blast
    with s False show ?thesis by (subst wrap_words.simps) simp
  qed
qed

lemma long_word: "split_space ''Supercalifragilisticexpialidocious''
    = [''Supercalifragilisticexpialidocious'']"
  by simp

lemma get_font_error: "get_font res cls n s = (Inl e, c) \<Longrightarrow> e = FontLoadError"
  by (auto simp: get_font_def Let_def split: option.splits if_splits)

lemma post_init_cache:
  assumes "TextArea_post_init res cls a = Some (r, c)"
  shows "c = snd (get_font res cls (font_name a) (supersampling_factor a * font_size a))"
proof -
  obtain x c0 where g: "get_font res cls (font_name a) (supersampling_factor a * font_size a) = (x, c0)"
    by (cases "get_font res cls (font_name a) (supersampling_factor a * font_size a)")
  show ?thesis
  proof (cases x)
    case (Inl e)
    with g assms post_init_font_error[of res cls a e c0] show ?thesis by simp
  next
    case (Inr fnt)
    note g' = g[unfolded Inr]
    show ?thesis
    proof (cases "fst (getsize fnt (text_str a)) < available_width (init_attributes a fnt)")
      case True
      from post_init_single[OF g' True] assms g' show ?thesis by simp
    next
      case False
      from post_init_multi[OF g' False] assms g' show ?thesis
        by (auto split: option.splits if_splits)
    qed
  qed
qed

lemma post_init_overflow:
  assumes "TextArea_post_init res cls a = Some (Inl TextOverflow, c)"
  shows "\<exists>fnt s1.
      get_font res cls (font_name a) (supersampling_factor a * font_size a) = (Inr fnt, c)
      \<and> \<not> fst (getsize fnt (text_str a)) < available_width (init_attributes a fnt)
      \<and> wrap_words (init_attributes a fnt) (split_space (text_str a)) = Some s1
      \<and> 0 < height a
      \<and> supersampling_factor a * height a + 2 * COMPONENT_PADDING * supersampling_factor a
          < total_text_height s1"
proof -
  obtain x c0 where g: "get_font res cls (font_name a) (supersampling_factor a * font_size a) = (x, c0)"
    by (cases "get_font res cls (font_name a) (supersampling_factor a * font_size a)")
  show ?thesis
  proof (cases x)
    case (Inl e)
    with g get_font_error[of res cls _ _ e c0] have "e = FontLoadError" by simp
    with Inl g assms post_init_font_error[of res cls a e c0] show ?thesis by simp
  next
    case (Inr fnt)
    note g' = g[unfolded Inr]
    show ?thesis
    proof (cases "fst (getsize fnt (text_str a)) < available_width (init_attributes a fnt)")
      case True
      from post_init_single[OF g' True] assms
      have "restore_scaling (single_line a fnt) = Inl TextOverflow" by simp
      then show ?thesis by (simp add: restore_scaling_def split: if_splits)
    next
      case False
      from post_init_multi[OF g' False] assms obtain s1 where
        w: "wrap_words (init_attributes a fnt) (split_space (text_str a)) = Some s1"
        by (auto split: option.splits)
      note k = wrap_words_kept[OF w]
      from post_init_multi[OF g' False] assms w
      have "0 < height s1 \<and> supersampled_height s1
               + 2 * COMPONENT_PADDING * supersampling_factor s1 < total_text_height s1"
        and "c0 = c"
        by (auto simp: restore_scaling_def split: if_splits)
      with k g' False w show ?thesis by auto
    qed
  qed
qed

lemma demo_hello_wrapped:
  "map_option total_text_height
     (wrap_words
        (init_attributes ((TextArea_defaults ''Hello world this is a test'' 160)\<lparr>height := 10\<rparr>)
           (demo_font ''OpenSans-Regular.ttf'' 34))
        (split_space ''Hello world this is a test'')) = Some 72"
  by code_simp

lemma single_line_count: "length (text_lines (single_line a fnt)) = 1"
  using arg_cong[OF single_line_simps(4)[of a fnt], of length] by simp

lemma demo_hello_40:
  "map_option supersampled_height (constructed (TextArea_post_init demo_resources Fonts_initial
      ((TextArea_defaults ''Hello world this is a test'' 160)\<lparr>height := 40\<rparr>))) = Some 72"
  by code_simp

lemma constructed_heights:
  assumes "TextArea_post_init res cls a = Some (Inr ta, cls')"
  shows "(height a = 0 \<or> \<not> text_width_of (font ta) (text_str a) < available_width ta
           \<longrightarrow> supersampled_height ta = total_text_height ta
             \<and> height ta = py_int (real_of_int (total_text_height ta)
                                      / real_of_int (supersampling_factor a)))
       \<and> (0 < height a \<and> \<not> text_width_of (font ta) (text_str a) < available_width ta
           \<longrightarrow> total_text_height ta
                 \<le> supersampling_factor a * height a
                     + 2 * COMPONENT_PADDING * supersampling_factor a)"
  using assms
proof (cases rule: post_init_Inr_cases)
  case (single fnt)
  note k = restore_scaling_kept[OF single(3)]
  have fit: "text_width_of (font ta) (text_str a) < available_width ta"
    using single(2) k(2,3) by (simp add: single_line_simps text_width_of_def)
  have "total_text_height ta = snd (getsize fnt (text_str a))"
    using k(12) by (simp add: total_text_height_def single_line_count single_line_simps)
  with fit k(5,9,11) show ?thesis
    by (simp add: single_line_simps)
next
  case (multi fnt s1)
  note k = restore_scaling_kept[OF multi(5)]
  note w = wrap_words_kept[OF multi(3)]
  have t: "total_text_height ta = total_text_height s1"
    using k(12) by (simp add: total_text_height_def)
  from k(5,9,11) w(6) t have "supersampled_height ta = total_text_height ta
      \<and> height ta = py_int (real_of_int (total_text_height ta)
                                      / real_of_int (supersampling_factor a))"
    by simp
  moreover from multi(4) w(4,5,6) t
  have "0 < height a \<longrightarrow> total_text_height ta
      \<le> supersampling_factor a * height a + 2 * COMPONENT_PADDING * supersampling_factor a"
    by auto
  ultimately show ?thesis by blast
qed

lemma text_y_of_constructed:
  assumes "TextArea_post_init res cls a = Some (Inr ta, cls')"
  shows "text_y ta =
     (if text_width_of (font ta) (text_str a) < available_width ta \<and> height a \<noteq> 0
      then half_toward_zero (supersampling_factor a * (supersampling_factor a * height a)
                               - text_height ta)
      else 0)"
    and "height a = 0 \<or> \<not> text_width_of (font ta) (text_str a) < available_width ta
         \<Longrightarrow> supersampled_height ta - total_text_height ta = 0"
proof -
  from assms show "text_y ta =
     (if text_width_of (font ta) (text_str a) < available_width ta \<and> height a \<noteq> 0
      then half_toward_zero (supersampling_factor a * (supersampling_factor a * height a)
                               - text_height ta)
      else 0)"
  proof (cases rule: post_init_Inr_cases)
    case (single fnt)
    note k = restore_scaling_kept[OF single(3)]
    have fit: "text_width_of (font ta) (text_str a) < available_width ta"
      using single(2) k(2,3) by (simp add: single_line_simps text_width_of_def)
    have "text_y ta = (if height a = 0 then 0
        else half_toward_zero (supersampling_factor a * (supersampling_factor a * height a)
                                 - snd (getsize fnt (text_str a))))"
      using k(6) by (simp only: single_line_simps py_int_half)
    moreover have "text_height ta = snd (getsize fnt (text_str a))"
      using k(8) by (simp only: single_line_simps)
    ultimately show ?thesis using fit by simp
  next
    case (multi fnt s1)
    note k = restore_scaling_kept[OF multi(5)]
    note w = wrap_words_kept[OF multi(3)]
    have "\<not> text_width_of (font ta) (text_str a) < available_width ta"
      using multi(2) k(2,3) w(1,2) by (simp add: text_width_of_def available_width_def)
    with k(6) show ?thesis by simp
  qed
  assume "height a = 0 \<or> \<not> text_width_of (font ta) (text_str a) < available_width ta"
  with constructed_heights[OF assms]
  show "supersampled_height ta - total_text_height ta = 0" by simp
qed

(*LEMMAS*)
section \<open>The properties\<close>

subsection \<open>The centering calculator\<close>

text \<open>
  C6, as amended. \<^verbatim>\<open>calc_text_centering\<close> returns
  x = start_x + h(box_width - (right - offset_x)) - offset_x when the text is centered and
  x = start_x + COMPONENT_PADDING otherwise, and y = start_y + h(box_height - (ascent -
  offset_y)) - offset_y, where h halves toward zero as \<^verbatim>\<open>int(d / 2)\<close> does. Where
  the text is no wider and no taller than the box, this is the formula of the
  specification, which halves with floor. The result is a function of the arguments and
  the font's metrics alone.
\<close>

theorem calc_text_centering_toward_zero:
  "calc_text_centering fnt txt c bw bh sx sy =
     (sx + (if c then half_toward_zero
                        (bw - (fst (snd (snd (getbbox fnt txt))) - fst (getoffset fnt txt)))
                      - fst (getoffset fnt txt)
            else COMPONENT_PADDING),
      sy + half_toward_zero (bh - (fst (getmetrics fnt) - snd (getoffset fnt txt)))
         - snd (getoffset fnt txt))
   \<and> (fst (snd (snd (getbbox fnt txt))) - fst (getoffset fnt txt) \<le> bw
        \<and> fst (getmetrics fnt) - snd (getoffset fnt txt) \<le> bh
      \<longrightarrow> calc_text_centering fnt txt c bw bh sx sy
          = calc_text_centering_spec fnt txt c bw bh sx sy)"
  unfolding calc_text_centering_def calc_text_centering_spec_def Let_def case_prod_beta
    py_int_half floor_half
  by (simp add: half_toward_zero_def)

text \<open>
  The text ``OK'' in the button font at 18 pixels is 18 wide and 18 tall; in a box of
  240 by 32 at (0, 100) it starts at (111, 107), under either formula.
\<close>

theorem calc_text_centering_toward_zero_witness:
  "fst (snd (snd (getbbox (demo_font ''OpenSans-SemiBold.ttf'' 18) ''OK'')))
     - fst (getoffset (demo_font ''OpenSans-SemiBold.ttf'' 18) ''OK'') \<le> 240
   \<and> fst (getmetrics (demo_font ''OpenSans-SemiBold.ttf'' 18))
     - snd (getoffset (demo_font ''OpenSans-SemiBold.ttf'' 18) ''OK'') \<le> 32
   \<and> calc_text_centering (demo_font ''OpenSans-SemiBold.ttf'' 18) ''OK'' True 240 32 0 100
     = calc_text_centering_spec (demo_font ''OpenSans-SemiBold.ttf'' 18) ''OK'' True 240 32 0 100
   \<and> calc_text_centering (demo_font ''OpenSans-SemiBold.ttf'' 18) ''OK'' True 240 32 0 100
     = (111, 107)"
proof -
  have fits: "fst (snd (snd (getbbox (demo_font ''OpenSans-SemiBold.ttf'' 18) ''OK'')))
       - fst (getoffset (demo_font ''OpenSans-SemiBold.ttf'' 18) ''OK'') \<le> 240
     \<and> fst (getmetrics (demo_font ''OpenSans-SemiBold.ttf'' 18))
       - snd (getoffset (demo_font ''OpenSans-SemiBold.ttf'' 18) ''OK'') \<le> 32"
    by (simp add: demo_font_def fixed_pitch_def)
  have val: "calc_text_centering (demo_font ''OpenSans-SemiBold.ttf'' 18) ''OK'' True 240 32 0 100
      = (111, 107)"
    by (simp add: calc_text_centering_def demo_font_def fixed_pitch_def py_int_def)
  have "calc_text_centering (demo_font ''OpenSans-SemiBold.ttf'' 18) ''OK'' True 240 32 0 100
      = calc_text_centering_spec (demo_font ''OpenSans-SemiBold.ttf'' 18) ''OK'' True 240 32 0 100"
    using calc_text_centering_toward_zero
      [of "demo_font ''OpenSans-SemiBold.ttf'' 18" "''OK''" True 240 32 0 100] fits
    by blast
  with fits val show ?thesis by blast
qed

text \<open>
  C6 as the specification states it fails where the text is wider than its box by an odd
  number of pixels: ``OK'' is 18 wide, and in a box of width 15 the code gives
  \<^verbatim>\<open>int(-1.5) = -1\<close> where floor gives -2.
\<close>

theorem calc_text_centering_floor_counterexample:
  "calc_text_centering (demo_font ''OpenSans-SemiBold.ttf'' 18) ''OK'' True 15 18 0 0 = (- 1, 0)
   \<and> calc_text_centering_spec (demo_font ''OpenSans-SemiBold.ttf'' 18) ''OK'' True 15 18 0 0
       = (- 2, 0)"
  by (simp add: calc_text_centering_def calc_text_centering_spec_def demo_font_def
      fixed_pitch_def py_int_def)

subsection \<open>Wrapping\<close>

text \<open>
  C5. When the font loads and the measured width of the whole text is strictly less than
  the available width (the supersampled width less the edge padding on both sides), the
  construction returns an object with exactly one line, whose content is the text. The
  supersampling factor is not zero, as the division that ends the construction needs.
\<close>

theorem one_line_when_text_fits:
  assumes "get_font res cls (font_name a) (supersampling_factor a * font_size a) = (Inr fnt, cls')"
    and "fst (getsize fnt (text_str a))
           < supersampling_factor a * width a - 2 * EDGE_PADDING * supersampling_factor a"
    and "supersampling_factor a \<noteq> 0"
  shows "\<exists>ta. TextArea_post_init res cls a = Some (Inr ta, cls')
            \<and> map line_text (text_lines ta) = [text_str a]"
proof -
  from assms(2) have fit: "fst (getsize fnt (text_str a)) < available_width (init_attributes a fnt)"
    by (simp add: available_width_init)
  from assms(3) obtain ta where r: "restore_scaling (single_line a fnt) = Inr ta"
    by (auto simp: restore_scaling_def single_line_simps)
  from post_init_single[OF assms(1) fit] r
  have p: "TextArea_post_init res cls a = Some (Inr ta, cls')" by simp
  have l: "map line_text (text_lines ta) = [text_str a]"
    using restore_scaling_kept(1)[OF r] by (simp add: single_line_simps)
  show ?thesis by (rule exI[of _ ta]) (simp only: p l)
qed

text \<open>
  ``Hello'' in the body font at twice 17 pixels is 85 wide; a text area 240 wide has 448
  available.
\<close>

theorem one_line_when_text_fits_witness:
  "get_font demo_resources Fonts_initial (font_name (TextArea_defaults ''Hello'' 240))
       (supersampling_factor (TextArea_defaults ''Hello'' 240)
          * font_size (TextArea_defaults ''Hello'' 240))
     = (Inr (demo_font ''OpenSans-Regular.ttf'' 34),
        snd (get_font demo_resources Fonts_initial ''OpenSans-Regular'' 34))
   \<and> fst (getsize (demo_font ''OpenSans-Regular.ttf'' 34) ''Hello'') < 2 * 240 - 2 * EDGE_PADDING * 2
   \<and> map line_text (text_lines (the (constructed
        (TextArea_post_init demo_resources Fonts_initial (TextArea_defaults ''Hello'' 240)))))
      = [''Hello'']"
proof -
  let ?a = "TextArea_defaults ''Hello'' 240"
  let ?c = "snd (get_font demo_resources Fonts_initial ''OpenSans-Regular'' 34)"
  have g: "get_font demo_resources Fonts_initial (font_name ?a)
       (supersampling_factor ?a * font_size ?a)
     = (Inr (demo_font ''OpenSans-Regular.ttf'' 34), ?c)"
    using get_font_demo[of 34] by (simp add: prod_eq_iff)
  have w: "fst (getsize (demo_font ''OpenSans-Regular.ttf'' 34) (text_str ?a))
      < supersampling_factor ?a * width ?a - 2 * EDGE_PADDING * supersampling_factor ?a"
    by (simp add: EDGE_PADDING_def)
  have z: "supersampling_factor ?a \<noteq> 0" by simp
  from one_line_when_text_fits[OF g w z] obtain ta where
    "TextArea_post_init demo_resources Fonts_initial ?a = Some (Inr ta, ?c)"
    "map line_text (text_lines ta) = [''Hello'']" by auto
  then have "map line_text (text_lines (the (constructed
        (TextArea_post_init demo_resources Fonts_initial ?a)))) = [''Hello'']"
    by (simp add: constructed_def)
  with g w show ?thesis by simp
qed

text \<open>
  C3. The lines of a constructed text area, joined by single spaces, are the text again,
  and the words of the lines, in order, are the words of the text: no word is dropped,
  duplicated, reordered or cut.
\<close>

theorem wrapped_lines_rejoin:
  assumes "TextArea_post_init res cls a = Some (Inr ta, cls')"
  shows "join_space (map line_text (text_lines ta)) = text_str a
       \<and> concat (map split_space (map line_text (text_lines ta))) = split_space (text_str a)"
proof -
  note lb = constructed_line_breaks[OF assms]
  from line_breaks_join[OF lb] have "join_space (map line_text (text_lines ta)) = text_str a"
    by (simp add: join_split_space)
  moreover have "\<forall>w\<in>set (split_space (text_str a)). CHR '' '' \<notin> set w"
    using split_space_no_space by blast
  from line_breaks_words[OF lb this]
  have "concat (map split_space (map line_text (text_lines ta))) = split_space (text_str a)" .
  ultimately show ?thesis by simp
qed

text \<open>
  In a text area 160 wide at the default font, 288 pixels hold sixteen characters: the
  text ``Hello world this is a test'' is laid out on two lines.
\<close>

theorem wrapped_lines_rejoin_witness:
  "map line_text (text_lines (the (constructed
      (TextArea_post_init demo_resources Fonts_initial
         (TextArea_defaults ''Hello world this is a test'' 160)))))
     = [''Hello world this'', ''is a test'']
   \<and> join_space [''Hello world this'', ''is a test''] = ''Hello world this is a test''
   \<and> concat (map split_space [''Hello world this'', ''is a test''])
       = split_space ''Hello world this is a test''"
proof -
  let ?a = "TextArea_defaults ''Hello world this is a test'' 160"
  from demo_hello_lines obtain ta where
    c: "constructed (TextArea_post_init demo_resources Fonts_initial ?a) = Some ta"
    and l: "map line_text (text_lines ta) = [''Hello world this'', ''is a test'']"
    by auto
  from constructed_Some[OF c] obtain cls' where
    p: "TextArea_post_init demo_resources Fonts_initial ?a = Some (Inr ta, cls')" ..
  from wrapped_lines_rejoin[OF p] l c show ?thesis by simp
qed

text \<open>
  C2. Provided the font never measures a line narrower when a word is appended to it
  (as advance widths give), every line of a constructed text area is the longest prefix of
  the words still to be laid out whose width, joined by single spaces, is at most the
  available width. Without any condition on the font, no line of a constructed text area
  is wider than the available width.
\<close>

theorem lines_are_longest_fitting_prefixes:
  assumes "TextArea_post_init res cls a = Some (Inr ta, cls')"
  shows "(width_monotone (text_width_of (font ta)) \<longrightarrow>
           greedy_lines (text_width_of (font ta)) (available_width ta)
             (split_space (text_str a)) (map line_text (text_lines ta)))
       \<and> (\<forall>l\<in>set (text_lines ta). text_width_of (font ta) (line_text l) \<le> available_width ta)"
proof -
  note lb = constructed_line_breaks[OF assms]
  from line_breaks_fit[OF lb]
  have "\<forall>l\<in>set (text_lines ta). text_width_of (font ta) (line_text l) \<le> available_width ta"
    by simp
  with line_breaks_greedy[OF _ lb] show ?thesis by blast
qed

text \<open>
  The text of the specification's scenario in a text area 160 wide: sixteen characters
  fit on a line, ``Hello world this'' has sixteen and the next word would not fit.
\<close>

theorem lines_are_longest_fitting_prefixes_witness:
  "width_monotone (text_width_of (demo_font ''OpenSans-Regular.ttf'' 34))
   \<and> map line_text (text_lines (the (constructed
        (TextArea_post_init demo_resources Fonts_initial
           (TextArea_defaults ''Hello world this is a test'' 160)))))
       = [''Hello world this'', ''is a test'']
   \<and> greedy_lines (text_width_of (demo_font ''OpenSans-Regular.ttf'' 34)) 288
        (split_space ''Hello world this is a test'') [''Hello world this'', ''is a test'']"
proof -
  let ?a = "TextArea_defaults ''Hello world this is a test'' 160"
  have m: "width_monotone (text_width_of (demo_font ''OpenSans-Regular.ttf'' 34))"
    by (rule width_monotone_demo) simp
  from demo_hello_lines obtain ta where
    c: "constructed (TextArea_post_init demo_resources Fonts_initial ?a) = Some ta"
    and l: "map line_text (text_lines ta) = [''Hello world this'', ''is a test'']"
    by auto
  from constructed_Some[OF c] obtain cls' where
    p: "TextArea_post_init demo_resources Fonts_initial ?a = Some (Inr ta, cls')" ..
  from constructed_font[OF p] get_font_demo[of 34]
  have f: "font ta = demo_font ''OpenSans-Regular.ttf'' 34" and w: "available_width ta = 288"
    by (simp_all add: EDGE_PADDING_def)
  from lines_are_longest_fitting_prefixes[OF p] m
  have "greedy_lines (text_width_of (demo_font ''OpenSans-Regular.ttf'' 34)) 288
        (split_space ''Hello world this is a test'') [''Hello world this'', ''is a test'']"
    unfolding f w l by simp
  with m l c show ?thesis by simp
qed

subsection \<open>A word wider than the text area\<close>

text \<open>
  C1 fails on the code. A text area 240 wide at the default font has 448 pixels
  available; the single word below measures 578. The search is entered with (0, 1),
  probes one word, finds it too wide and calls itself with (0, 0); there the forced index
  1 is probed again, found too wide, and the call is (0, 0) again, for ever: the
  construction returns nothing, where the claim has the word emitted as a line.
\<close>

theorem wide_word_never_returns:
  "TextArea_post_init demo_resources Fonts_initial
     (TextArea_defaults ''Supercalifragilisticexpialidocious'' 240) = None"
proof -
  let ?t = "''Supercalifragilisticexpialidocious''"
  let ?a = "TextArea_defaults ?t 240"
  let ?f = "demo_font ''OpenSans-Regular.ttf'' 34"
  let ?c = "snd (get_font demo_resources Fonts_initial ''OpenSans-Regular'' 34)"
  have g: "get_font demo_resources Fonts_initial (font_name ?a)
       (supersampling_factor ?a * font_size ?a) = (Inr ?f, ?c)"
    using get_font_demo[of 34] by (simp add: prod_eq_iff)
  have av: "available_width (init_attributes ?a ?f) = 448"
    by (simp add: available_width_init EDGE_PADDING_def)
  have tw: "fst (getsize ?f (text_str ?a)) = 578" by simp
  have n: "\<not> fst (getsize ?f (text_str ?a)) < available_width (init_attributes ?a ?f)"
    unfolding av tw by simp
  have "wrap_words (init_attributes ?a ?f) [?t] = None"
    by (rule wrap_single_wide_word) (simp add: av)
  then have "wrap_words (init_attributes ?a ?f) (split_space (text_str ?a)) = None"
    by (simp only: TextArea_defaults_simps long_word)
  with post_init_multi[OF g n] show ?thesis by simp
qed

subsection \<open>The height of the text area\<close>

text \<open>
  C4, as amended. When the font loads and the text does not fit on one line, the
  construction raises the overflow error if and only if the declared height is positive
  and the stacked height of the lines found exceeds the supersampled declared height plus
  twice the component padding times the supersampling factor. It is never raised when
  the declared height is 0. When it is raised no object is returned, and the font cache
  is as \<^verbatim>\<open>Fonts.get_font\<close> left it.
\<close>

theorem text_overflow_raised_iff:
  "(get_font res cls (font_name a) (supersampling_factor a * font_size a) = (Inr fnt, cls')
      \<and> \<not> fst (getsize fnt (text_str a))
            < supersampling_factor a * width a - 2 * EDGE_PADDING * supersampling_factor a
      \<and> wrap_words (init_attributes a fnt) (split_space (text_str a)) = Some s1
    \<longrightarrow> (TextArea_post_init res cls a = Some (Inl TextOverflow, cls')
           \<longleftrightarrow> 0 < height a
               \<and> supersampling_factor a * height a
                    + 2 * COMPONENT_PADDING * supersampling_factor a
                   < total_text_height s1))
   \<and> (height a = 0 \<longrightarrow> TextArea_post_init res cls a \<noteq> Some (Inl TextOverflow, c))
   \<and> (TextArea_post_init res cls a = Some (Inl TextOverflow, c)
        \<longrightarrow> c = snd (get_font res cls (font_name a) (supersampling_factor a * font_size a)))"
proof (intro conjI impI)
  assume h: "get_font res cls (font_name a) (supersampling_factor a * font_size a) = (Inr fnt, cls')
      \<and> \<not> fst (getsize fnt (text_str a))
            < supersampling_factor a * width a - 2 * EDGE_PADDING * supersampling_factor a
      \<and> wrap_words (init_attributes a fnt) (split_space (text_str a)) = Some s1"
  then have g: "get_font res cls (font_name a) (supersampling_factor a * font_size a) = (Inr fnt, cls')"
    and n: "\<not> fst (getsize fnt (text_str a)) < available_width (init_attributes a fnt)"
    and w: "wrap_words (init_attributes a fnt) (split_space (text_str a)) = Some s1"
    by (simp_all add: available_width_init)
  note k = wrap_words_kept[OF w]
  from post_init_multi[OF g n] w k(4,5,6)
  show "TextArea_post_init res cls a = Some (Inl TextOverflow, cls')
           \<longleftrightarrow> 0 < height a
               \<and> supersampling_factor a * height a
                    + 2 * COMPONENT_PADDING * supersampling_factor a
                   < total_text_height s1"
    by (auto simp: restore_scaling_def split: if_splits)
next
  assume "height a = 0"
  with post_init_overflow[of res cls a c]
  show "TextArea_post_init res cls a \<noteq> Some (Inl TextOverflow, c)" by auto
next
  assume "TextArea_post_init res cls a = Some (Inl TextOverflow, c)"
  then show "c = snd (get_font res cls (font_name a) (supersampling_factor a * font_size a))"
    by (rule post_init_cache)
qed

text \<open>
  The two lines of ``Hello world this is a test'' are 34 high each with 4 between them,
  72 in all. With a declared height of 10, the limit is 2 * 10 + 2 * 8 * 2 = 52 and the
  error is raised; with the height left at 0 it is not.
\<close>

theorem text_overflow_raised_iff_witness:
  "TextArea_post_init demo_resources Fonts_initial
     ((TextArea_defaults ''Hello world this is a test'' 160)\<lparr>height := 10\<rparr>)
     = Some (Inl TextOverflow, snd (get_font demo_resources Fonts_initial ''OpenSans-Regular'' 34))
   \<and> TextArea_post_init demo_resources Fonts_initial
       (TextArea_defaults ''Hello world this is a test'' 160)
     \<noteq> Some (Inl TextOverflow, snd (get_font demo_resources Fonts_initial ''OpenSans-Regular'' 34))"
proof -
  let ?t = "''Hello world this is a test''"
  let ?a = "(TextArea_defaults ?t 160)\<lparr>height := 10\<rparr>"
  let ?f = "demo_font ''OpenSans-Regular.ttf'' 34"
  let ?c = "snd (get_font demo_resources Fonts_initial ''OpenSans-Regular'' 34)"
  have g: "get_font demo_resources Fonts_initial (font_name ?a)
       (supersampling_factor ?a * font_size ?a) = (Inr ?f, ?c)"
    using get_font_demo[of 34] by (simp add: prod_eq_iff)
  have n: "\<not> fst (getsize ?f (text_str ?a))
            < supersampling_factor ?a * width ?a - 2 * EDGE_PADDING * supersampling_factor ?a"
    by (simp add: EDGE_PADDING_def)
  from demo_hello_wrapped obtain s1 where
    w: "wrap_words (init_attributes ?a ?f) (split_space (text_str ?a)) = Some s1"
    and t: "total_text_height s1 = 72" by auto
  have "0 < height ?a \<and> supersampling_factor ?a * height ?a
           + 2 * COMPONENT_PADDING * supersampling_factor ?a < total_text_height s1"
    by (simp add: t COMPONENT_PADDING_def)
  with text_overflow_raised_iff[of demo_resources Fonts_initial ?a ?f ?c s1] g n w
  have 1: "TextArea_post_init demo_resources Fonts_initial ?a = Some (Inl TextOverflow, ?c)"
    by blast
  have "height (TextArea_defaults ?t 160) = 0" by simp
  with text_overflow_raised_iff[of demo_resources Fonts_initial "TextArea_defaults ?t 160" _ _ _ ?c]
  have 2: "TextArea_post_init demo_resources Fonts_initial (TextArea_defaults ?t 160)
      \<noteq> Some (Inl TextOverflow, ?c)" by blast
  from 1 2 show ?thesis by simp
qed

text \<open>
  C4 as the specification states it fails: with a declared height of 30 (60 supersampled)
  the same two lines, 72 high, exceed the declared height, and the construction returns
  an object instead of raising, because 72 is within 60 + 32.
\<close>

theorem text_overflow_not_raised_counterexample:
  "map_option total_text_height
     (constructed (TextArea_post_init demo_resources Fonts_initial
        ((TextArea_defaults ''Hello world this is a test'' 160)\<lparr>height := 30\<rparr>))) = Some 72
   \<and> supersampling_factor ((TextArea_defaults ''Hello world this is a test'' 160)\<lparr>height := 30\<rparr>)
       * height ((TextArea_defaults ''Hello world this is a test'' 160)\<lparr>height := 30\<rparr>) = 60"
  by code_simp

text \<open>
  C7, as amended. In a text area that was constructed, when the declared height is 0 or
  the text did not fit on one line, the supersampled height is exactly the stacked height
  of the lines (line height times count plus spacing times count less one) and the height
  field is that quantity divided by the supersampling factor, rounded toward zero. When
  a positive height was declared and the text did not fit on one line, the stacked height
  is at most the supersampled declared height plus twice the component padding times the
  supersampling factor.
\<close>

theorem stacked_height_of_constructed:
  assumes "TextArea_post_init res cls a = Some (Inr ta, cls')"
  shows "(height a = 0 \<or> \<not> text_width_of (font ta) (text_str a) < available_width ta
           \<longrightarrow> supersampled_height ta = total_text_height ta
             \<and> height ta = py_int (real_of_int (total_text_height ta)
                                      / real_of_int (supersampling_factor a)))
       \<and> (0 < height a \<and> \<not> text_width_of (font ta) (text_str a) < available_width ta
           \<longrightarrow> total_text_height ta
                 \<le> supersampling_factor a * height a
                     + 2 * COMPONENT_PADDING * supersampling_factor a)"
  using constructed_heights[OF assms] .

text \<open>
  With a declared height of 40 the two lines, 72 high, are within 80 + 32; the
  supersampled height becomes 72 and the height field 36.
\<close>

theorem stacked_height_of_constructed_witness:
  "map_option supersampled_height (constructed (TextArea_post_init demo_resources Fonts_initial
      ((TextArea_defaults ''Hello world this is a test'' 160)\<lparr>height := 40\<rparr>))) = Some 72
   \<and> map_option total_text_height (constructed (TextArea_post_init demo_resources Fonts_initial
      ((TextArea_defaults ''Hello world this is a test'' 160)\<lparr>height := 40\<rparr>))) = Some 72
   \<and> map_option height (constructed (TextArea_post_init demo_resources Fonts_initial
      ((TextArea_defaults ''Hello world this is a test'' 160)\<lparr>height := 40\<rparr>))) = Some 36
   \<and> (72::int) \<le> 2 * 40 + 2 * COMPONENT_PADDING * 2"
proof -
  let ?a = "(TextArea_defaults ''Hello world this is a test'' 160)\<lparr>height := 40\<rparr>"
  from demo_hello_40 obtain ta where
    c: "constructed (TextArea_post_init demo_resources Fonts_initial ?a) = Some ta"
    and s: "supersampled_height ta = 72" by auto
  from constructed_Some[OF c] obtain cls' where
    p: "TextArea_post_init demo_resources Fonts_initial ?a = Some (Inr ta, cls')" ..
  from constructed_font[OF p] get_font_demo[of 34]
  have f: "font ta = demo_font ''OpenSans-Regular.ttf'' 34" and w: "available_width ta = 288"
    by (simp_all add: EDGE_PADDING_def)
  have n: "\<not> text_width_of (font ta) (text_str ?a) < available_width ta"
    unfolding f w by (simp add: text_width_of_def)
  have h: "0 < height ?a" by simp
  from stacked_height_of_constructed[OF p] n h s
  have "total_text_height ta = 72"
    and "height ta = py_int (real_of_int (total_text_height ta) / real_of_int (supersampling_factor ?a))"
    and "total_text_height ta \<le> supersampling_factor ?a * height ?a
                     + 2 * COMPONENT_PADDING * supersampling_factor ?a"
    by simp_all
  then have "total_text_height ta = 72" "height ta = 36" "(72::int) \<le> 2 * 40 + 2 * COMPONENT_PADDING * 2"
    by (simp_all add: py_int_def)
  with c s show ?thesis by simp
qed

text \<open>
  C7 as the specification states it fails: with a declared height of 35 the object is
  constructed although the stacked height 72 exceeds 2 * 35, and the height field comes
  back as 36.
\<close>

theorem stacked_height_exceeds_declared_counterexample:
  "map_option total_text_height (constructed (TextArea_post_init demo_resources Fonts_initial
      ((TextArea_defaults ''Hello world this is a test'' 160)\<lparr>height := 35\<rparr>))) = Some 72
   \<and> map_option height (constructed (TextArea_post_init demo_resources Fonts_initial
      ((TextArea_defaults ''Hello world this is a test'' 160)\<lparr>height := 35\<rparr>))) = Some 36
   \<and> supersampling_factor ((TextArea_defaults ''Hello world this is a test'' 160)\<lparr>height := 35\<rparr>)
       * height ((TextArea_defaults ''Hello world this is a test'' 160)\<lparr>height := 35\<rparr>) = 70"
  by code_simp

subsection \<open>The vertical start of the text\<close>

text \<open>
  C8 fails on the code when one line of text is given a fixed height. ``Hello'' is 34
  high; with a declared height of 60 the block is 120 high supersampled and the text
  would be centered at (120 - 34) / 2 = 43. The code computes
  \<^verbatim>\<open>int((2 * 120 - 34) / 2) = 103\<close>: it multiplies the height, already supersampled, by
  the factor a second time.
\<close>

theorem single_line_text_y_doubly_scaled:
  "map_option text_y (constructed (TextArea_post_init demo_resources Fonts_initial
      ((TextArea_defaults ''Hello'' 240)\<lparr>height := 60\<rparr>))) = Some 103
   \<and> map_option supersampled_height (constructed (TextArea_post_init demo_resources Fonts_initial
      ((TextArea_defaults ''Hello'' 240)\<lparr>height := 60\<rparr>))) = Some 120
   \<and> map_option total_text_height (constructed (TextArea_post_init demo_resources Fonts_initial
      ((TextArea_defaults ''Hello'' 240)\<lparr>height := 60\<rparr>))) = Some 34
   \<and> \<lfloor>real_of_int (120 - 34) / 2\<rfloor> = 43"
  by code_simp

end
